theory Spec2Isabelle
  imports Main "HOL-Library.Word" "HOL-Library.Sublist"
begin

unbundle bit_operations_syntax

section \<open>Python strings\<close>

text \<open>
  A Python \<open>str\<close> is modelled as a \<^typ>\<open>string\<close> whose characters are the code points
  0 to 255. The file is read line by line and every line has its newline removed, so the
  lines the converter works on contain no newline character.
\<close>

definition newline :: char where
  "newline = CHR 0x0A"

text \<open>\<open>str.isspace\<close> on the code points below 256.\<close>

definition isspace :: "char \<Rightarrow> bool" where
  "isspace c = ((of_char c :: nat) \<in> {9, 10, 11, 12, 13, 28, 29, 30, 31, 32, 133, 160})"

text \<open>\<open>s.strip()\<close> and \<open>s.strip(chars)\<close>: the longest prefix and the longest suffix of
  characters of the given kind are removed.\<close>

definition strip_with :: "(char \<Rightarrow> bool) \<Rightarrow> string \<Rightarrow> string" where
  "strip_with p s = rev (dropWhile p (rev (dropWhile p s)))"

definition strip :: "string \<Rightarrow> string" where
  "strip s = strip_with isspace s"

definition strip_chars :: "string \<Rightarrow> string \<Rightarrow> string" where
  "strip_chars chars s = strip_with (\<lambda>c. c \<in> set chars) s"

text \<open>\<open>s.replace(c, '')\<close> for a single character \<open>c\<close>.\<close>

definition replace_empty :: "char \<Rightarrow> string \<Rightarrow> string" where
  "replace_empty c s = filter (\<lambda>x. x \<noteq> c) s"

text \<open>The decimal digits of a number, as an f-string prints an \<open>int\<close>.\<close>

definition digit_char :: "nat \<Rightarrow> char" where
  "digit_char n = ''0123456789'' ! n"

fun str_nat :: "nat \<Rightarrow> string" where
  "str_nat n = (if n < 10 then [digit_char n]
                else str_nat (n div 10) @ [digit_char (n mod 10)])"

declare str_nat.simps [simp del]

section \<open>Regular expression substitution\<close>

text \<open>
  Every pattern of the source is two literal characters, the lazy group \<open>(.*?)\<close> and two
  literal characters. \<open>find_close\<close> is the lazy group followed by the closing
  delimiter: the group grows one character at a time, never over a newline (the dot does
  not match it), and stops at the first position where the closing delimiter stands. It
  returns the group and the text after the match.
\<close>

fun find_close :: "string \<Rightarrow> string \<Rightarrow> (string \<times> string) option" where
  "find_close [c, d] (x # y # zs) =
     (if x = c \<and> y = d then Some ([], zs)
      else if x = newline then None
      else (case find_close [c, d] (y # zs) of
              None \<Rightarrow> None
            | Some (m, rest) \<Rightarrow> Some (x # m, rest)))"
| "find_close cl s = None"

text \<open>A match of the whole pattern at the start of \<open>s\<close>.\<close>

fun match_span :: "string \<Rightarrow> string \<Rightarrow> string \<Rightarrow> (string \<times> string) option" where
  "match_span [a, b] cl (x # y # zs) = (if x = a \<and> y = b then find_close cl zs else None)"
| "match_span opn cl s = None"

lemma find_close_length:
  "find_close cl s = Some (m, rest) \<Longrightarrow> length s = length m + 2 + length rest"
  by (induction cl s arbitrary: m rule: find_close.induct)
     (auto split: if_splits option.splits)

lemma match_span_length:
  "match_span opn cl s = Some (m, rest) \<Longrightarrow> length s = length m + 4 + length rest"
  by (induction opn cl s rule: match_span.induct)
     (auto split: if_splits dest: find_close_length)

text \<open>
  \<open>re.sub\<close>: the string is scanned from the left; where the pattern matches, the match
  is replaced by \<open>repl\<close> of the group and the scan goes on after the match; elsewhere the
  character is copied. No pattern of the source matches the empty string.
\<close>

function re_sub :: "string \<Rightarrow> string \<Rightarrow> (string \<Rightarrow> string) \<Rightarrow> string \<Rightarrow> string" where
  "re_sub opn cl repl [] = []"
| "re_sub opn cl repl (x # xs) =
     (case match_span opn cl (x # xs) of
        Some (m, rest) \<Rightarrow> repl m @ re_sub opn cl repl rest
      | None \<Rightarrow> x # re_sub opn cl repl xs)"
  by pat_completeness auto
termination
  by (relation "measure (\<lambda>(opn, cl, repl, s). length s)")
     (auto dest: match_span_length)

section \<open>MD5\<close>

text \<open>
  \<open>hashlib.md5(content.encode()).hexdigest()\<close>: the UTF-8 encoding of the text, the MD5
  digest of these bytes (RFC 1321) and its 32 lowercase hexadecimal digits.
\<close>

definition md5_s :: "nat list" where
  "md5_s = [7, 12, 17, 22, 7, 12, 17, 22, 7, 12, 17, 22, 7, 12, 17, 22,
            5, 9, 14, 20, 5, 9, 14, 20, 5, 9, 14, 20, 5, 9, 14, 20,
            4, 11, 16, 23, 4, 11, 16, 23, 4, 11, 16, 23, 4, 11, 16, 23,
            6, 10, 15, 21, 6, 10, 15, 21, 6, 10, 15, 21, 6, 10, 15, 21]"

definition md5_K :: "32 word list" where
  "md5_K = [0xd76aa478, 0xe8c7b756, 0x242070db, 0xc1bdceee,
            0xf57c0faf, 0x4787c62a, 0xa8304613, 0xfd469501,
            0x698098d8, 0x8b44f7af, 0xffff5bb1, 0x895cd7be,
            0x6b901122, 0xfd987193, 0xa679438e, 0x49b40821,
            0xf61e2562, 0xc040b340, 0x265e5a51, 0xe9b6c7aa,
            0xd62f105d, 0x02441453, 0xd8a1e681, 0xe7d3fbc8,
            0x21e1cde6, 0xc33707d6, 0xf4d50d87, 0x455a14ed,
            0xa9e3e905, 0xfcefa3f8, 0x676f02d9, 0x8d2a4c8a,
            0xfffa3942, 0x8771f681, 0x6d9d6122, 0xfde5380c,
            0xa4beea44, 0x4bdecfa9, 0xf6bb4b60, 0xbebfbc70,
            0x289b7ec6, 0xeaa127fa, 0xd4ef3085, 0x04881d05,
            0xd9d4d039, 0xe6db99e5, 0x1fa27cf8, 0xc4ac5665,
            0xf4292244, 0x432aff97, 0xab9423a7, 0xfc93a039,
            0x655b59c3, 0x8f0ccc92, 0xffeff47d, 0x85845dd1,
            0x6fa87e4f, 0xfe2ce6e0, 0xa3014314, 0x4e0811a1,
            0xf7537e82, 0xbd3af235, 0x2ad7d2bb, 0xeb86d391]"

type_synonym md5_state = "32 word \<times> 32 word \<times> 32 word \<times> 32 word"

text \<open>UTF-8 of a code point below 256: one byte below 128, two bytes from 128 on.\<close>

definition utf8_char :: "char \<Rightarrow> 8 word list" where
  "utf8_char c = (let n = (of_char c :: nat) in
     if n < 128 then [of_nat n] else [of_nat (192 + n div 64), of_nat (128 + n mod 64)])"

definition encode :: "string \<Rightarrow> 8 word list" where
  "encode s = concat (map utf8_char s)"

text \<open>The \<open>k\<close> low bytes of a word, least significant first.\<close>

definition le_bytes :: "nat \<Rightarrow> 'a::len word \<Rightarrow> 8 word list" where
  "le_bytes k w = map (\<lambda>i. ucast (drop_bit (8 * i) w)) [0..<k]"

definition le_word :: "8 word list \<Rightarrow> 32 word" where
  "le_word bs = foldr (\<lambda>b w. ucast b + push_bit 8 w) bs 0"

text \<open>Padding: the byte 0x80, zero bytes up to 56 modulo 64, and the length of the
  message in bits as 64 bits.\<close>

definition md5_pad :: "8 word list \<Rightarrow> 8 word list" where
  "md5_pad msg = msg @ [0x80] @ replicate ((119 - length msg mod 64) mod 64) 0
                   @ le_bytes 8 (of_nat (8 * length msg) :: 64 word)"

fun chunks :: "nat \<Rightarrow> 'a list \<Rightarrow> 'a list list" where
  "chunks 0 xs = []"
| "chunks (Suc k) xs = take 4 xs # chunks k (drop 4 xs)"

definition md5_round :: "32 word list \<Rightarrow> md5_state \<Rightarrow> nat \<Rightarrow> md5_state" where
  "md5_round M st i = (case st of (A, B, C, D) \<Rightarrow>
     let (F, g) =
           (if i < 16 then ((B AND C) OR (NOT B AND D), i)
            else if i < 32 then ((D AND B) OR (NOT D AND C), (5 * i + 1) mod 16)
            else if i < 48 then (B XOR C XOR D, (3 * i + 5) mod 16)
            else (C XOR (B OR NOT D), (7 * i) mod 16));
         F = F + A + md5_K ! i + M ! g
     in (D, B + word_rotl (md5_s ! i) F, B, C))"

definition md5_block :: "md5_state \<Rightarrow> 8 word list \<Rightarrow> md5_state" where
  "md5_block st block = (case st of (a0, b0, c0, d0) \<Rightarrow>
     let M = map le_word (chunks 16 block) in
     case foldl (md5_round M) st [0..<64] of (A, B, C, D) \<Rightarrow>
       (a0 + A, b0 + B, c0 + C, d0 + D))"

fun md5_blocks :: "nat \<Rightarrow> md5_state \<Rightarrow> 8 word list \<Rightarrow> md5_state" where
  "md5_blocks 0 st bs = st"
| "md5_blocks (Suc n) st bs = md5_blocks n (md5_block st (take 64 bs)) (drop 64 bs)"

definition md5_digest :: "8 word list \<Rightarrow> 8 word list" where
  "md5_digest msg = (let p = md5_pad msg in
     case md5_blocks (length p div 64) (0x67452301, 0xefcdab89, 0x98badcfe, 0x10325476) p
     of (a, b, c, d) \<Rightarrow> concat (map (le_bytes 4) [a, b, c, d]))"

definition hex_digit :: "nat \<Rightarrow> char" where
  "hex_digit n = ''0123456789abcdef'' ! (n mod 16)"

definition hex_byte :: "8 word \<Rightarrow> string" where
  "hex_byte b = [hex_digit (unat (drop_bit 4 b)), hex_digit (unat (b AND 0x0F))]"

definition md5_hash :: "string \<Rightarrow> string" where
  "md5_hash content = concat (map hex_byte (md5_digest (encode content)))"

section \<open>The converter\<close>

definition remove_character :: "string \<Rightarrow> string" where
  "remove_character line =
     (let line = re_sub ''[['' '']]'' md5_hash line;
          line = re_sub ''(('' ''))''
                   (\<lambda>m. replace_empty CHR ''C'' (replace_empty CHR ''c'' m)) line
      in line)"

definition process_inline_formatting :: "string \<Rightarrow> string" where
  "process_inline_formatting text =
     (let text = re_sub ''**'' ''**'' (\<lambda>m. ''<b>'' @ m @ ''</b>'') text;
          text = re_sub ''__'' ''__'' (\<lambda>m. ''<em>'' @ m @ ''</em>'') text
      in text)"

text \<open>The list type is \<open>None\<close>, \<open>"ul"\<close> or \<open>"ol"\<close>; \<open>str_list_type\<close> is what the
  f-string of the closing tag prints for it.\<close>

definition str_list_type :: "string option \<Rightarrow> string" where
  "str_list_type list_type = (case list_type of None \<Rightarrow> ''None'' | Some tag \<Rightarrow> tag)"

text \<open>The function \<open>list\<close> of the source.\<close>

definition list_md :: "string \<Rightarrow> bool \<Rightarrow> string option \<Rightarrow> string \<times> bool \<times> string option" where
  "list_md line in_list list_type =
     (if prefix ''- '' line \<or> prefix ''* '' line then
        (if \<not> in_list then
           (let tag = (if prefix ''- '' line then ''ul'' else ''ol'')
            in (''<'' @ tag @ ''>'' @ [newline] @ ''<li>'' @ strip (drop 2 line) @ ''</li>'',
                True, Some tag))
         else (''<li>'' @ strip (drop 2 line) @ ''</li>'', True, list_type))
      else
        (if in_list then (''</'' @ str_list_type list_type @ ''>'' @ line, False, None)
         else (line, in_list, list_type)))"

definition heading :: "string \<Rightarrow> string" where
  "heading line =
     (if prefix ''#'' line then
        (let level = count_list line CHR ''#'';
             line_content = strip (strip_chars ''#'' line)
         in ''<h'' @ str_nat level @ ''>'' @ line_content @ ''</h'' @ str_nat level @ ''>'')
      else line)"

text \<open>The body of the loop of \<open>convert_line\<close>, on the pair of \<open>in_paragraph\<close> and
  \<open>html_lines\<close>.\<close>

definition convert_body :: "bool \<times> string list \<Rightarrow> string \<Rightarrow> bool \<times> string list" where
  "convert_body st line = (case st of (in_paragraph, html_lines) \<Rightarrow>
     if prefix ''<h'' line \<or> prefix ''</ul>'' line \<or> prefix ''</ol>'' line then
       (if in_paragraph then (False, html_lines @ [''</p>''] @ [line])
        else (in_paragraph, html_lines @ [line]))
     else if prefix ''<ul'' line \<or> prefix ''<li'' line \<or> prefix ''<ol'' line then
       (if in_paragraph then (False, html_lines @ [line])
        else (in_paragraph, html_lines @ [line]))
     else if strip line = [] then
       (if in_paragraph then (False, html_lines @ [''</p>''])
        else (in_paragraph, html_lines))
     else
       (if \<not> in_paragraph then (True, html_lines @ [''<p>''] @ [line])
        else (in_paragraph, html_lines @ [''<br />''] @ [line])))"

definition convert_line :: "string list \<Rightarrow> string list" where
  "convert_line lines = (case foldl convert_body (False, []) lines of
     (in_paragraph, html_lines) \<Rightarrow>
       if in_paragraph then html_lines @ [''</p>''] else html_lines)"

text \<open>
  The main program, from the lines of the Markdown file to the lines written to the HTML
  file (each is written followed by a newline). \<open>main_body\<close> is the body of its loop, on
  \<open>processed_lines\<close>, \<open>in_list\<close> and \<open>list_type\<close>.
\<close>

definition main_body ::
  "string list \<times> bool \<times> string option \<Rightarrow> string \<Rightarrow> string list \<times> bool \<times> string option" where
  "main_body st line = (case st of (processed_lines, in_list, list_type) \<Rightarrow>
     let line = remove_character line;
         line = process_inline_formatting line
     in case list_md (heading line) in_list list_type of
          (processed_line, in_list, list_type) \<Rightarrow>
            (processed_lines @ [processed_line], in_list, list_type))"

definition markdown2html :: "string list \<Rightarrow> string list" where
  "markdown2html lines = (case foldl main_body ([], False, None) lines of
     (processed_lines, in_list, list_type) \<Rightarrow>
       convert_line processed_lines
         @ (if in_list then [''</'' @ str_list_type list_type @ ''>''] else []))"

text \<open>The three tests on the start of a line that the source makes with \<open>startswith\<close>.\<close>

abbreviation list_marker :: "string \<Rightarrow> bool" where
  "list_marker line \<equiv> prefix ''- '' line \<or> prefix ''* '' line"

abbreviation closing_marker :: "string \<Rightarrow> bool" where
  "closing_marker line \<equiv> prefix ''<h'' line \<or> prefix ''</ul>'' line \<or> prefix ''</ol>'' line"

abbreviation opening_marker :: "string \<Rightarrow> bool" where
  "opening_marker line \<equiv> prefix ''<ul'' line \<or> prefix ''<li'' line \<or> prefix ''<ol'' line"

text \<open>
  Names for the parts of the main loop: the line as it reaches the list tracker, the item
  that \<open>list\<close> makes of a marker line, the tag it opens a list with, the line that opens a
  list and the line that closes one.
\<close>

abbreviation rewritten :: "string \<Rightarrow> string" where
  "rewritten line \<equiv> heading (process_inline_formatting (remove_character line))"

abbreviation item_line :: "string \<Rightarrow> string" where
  "item_line line \<equiv> ''<li>'' @ strip (drop 2 (rewritten line)) @ ''</li>''"

abbreviation list_tag :: "string \<Rightarrow> string" where
  "list_tag line \<equiv> (if prefix ''- '' (rewritten line) then ''ul'' else ''ol'')"

abbreviation open_line :: "string \<Rightarrow> string" where
  "open_line line \<equiv> ''<'' @ list_tag line @ ''>'' @ [newline] @ item_line line"

abbreviation close_line :: "string \<Rightarrow> string \<Rightarrow> string" where
  "close_line tag line \<equiv> ''</'' @ tag @ ''>'' @ rewritten line"

text \<open>
  \<open>has_pair a b s\<close>: somewhere in \<open>s\<close> the character \<open>a\<close> is followed at once by \<open>b\<close>.
  The delimiters of the directives are such pairs.
\<close>

fun has_pair :: "char \<Rightarrow> char \<Rightarrow> string \<Rightarrow> bool" where
  "has_pair a b (x # y # zs) = ((x = a \<and> y = b) \<or> has_pair a b (y # zs))"
| "has_pair a b s = False"

text \<open>
  A line without Markdown markers for this converter: it does not start with \<open>#\<close>,
  \<open>"- "\<close> or \<open>"* "\<close>, and none of the opening delimiters \<open>[[\<close>, \<open>((\<close>, \<open>**\<close>, \<open>__\<close>
  occurs in it.
\<close>

definition no_markdown_markers :: "string \<Rightarrow> bool" where
  "no_markdown_markers L =
     (\<not> prefix ''#'' L \<and> \<not> prefix ''- '' L \<and> \<not> prefix ''* '' L
      \<and> \<not> has_pair CHR ''['' CHR ''['' L \<and> \<not> has_pair CHR ''('' CHR ''('' L
      \<and> \<not> has_pair CHR ''*'' CHR ''*'' L \<and> \<not> has_pair CHR ''_'' CHR ''_'' L)"

text \<open>
  The invariant of the loop of \<open>convert_line\<close> for the paragraph tags: no prefix of the
  output has more lines \<open></p>\<close> than lines \<open><p>\<close>, and while a paragraph is open the
  output has more \<open><p>\<close> than \<open></p>\<close>.
\<close>

definition paragraphs_balanced :: "bool \<times> string list \<Rightarrow> bool" where
  "paragraphs_balanced st = (case st of (in_paragraph, html_lines) \<Rightarrow>
     (\<forall>pre. prefix pre html_lines \<longrightarrow> count_list pre ''</p>'' \<le> count_list pre ''<p>'')
     \<and> (in_paragraph \<longrightarrow> count_list html_lines ''</p>'' < count_list html_lines ''<p>''))"

section \<open>The pipeline on a document\<close>

lemmas converter_defs =
  markdown2html_def main_body_def remove_character_def process_inline_formatting_def
  heading_def list_md_def convert_line_def convert_body_def strip_def strip_with_def
  strip_chars_def isspace_def str_nat.simps digit_char_def newline_def str_list_type_def
  replace_empty_def

text \<open>
  C1: the document with the lines \<open># Title\<close>, an empty line, \<open>Hello **world**\<close> and
  \<open>More __text__\<close> is converted by the whole pipeline (inline rewriting, heading, list
  tracking, paragraphs) to the six lines \<open><h1>Title</h1>\<close>, \<open><p>\<close>,
  \<open>Hello <b>world</b>\<close>, \<open><br />\<close>, \<open>More <em>text</em>\<close>, \<open></p>\<close>.
\<close>

theorem pipeline_scenario:
  "markdown2html [''# Title'', '''', ''Hello **world**'', ''More __text__'']
     = [''<h1>Title</h1>'', ''<p>'', ''Hello <b>world</b>'', ''<br />'',
        ''More <em>text</em>'', ''</p>'']"
  by (simp add: converter_defs)

section \<open>The list tracker on one line\<close>

text \<open>
  C4: a line that starts with \<open>"- "\<close> or \<open>"* "\<close> and is processed while a list is open gives
  \<open><li>rest</li>\<close>, where \<open>rest\<close> is the line without its first two characters and
  stripped of surrounding whitespace, and the list state (open, with the same type) is
  unchanged, whichever marker the line has. In particular the lines \<open>- a\<close> and \<open>* b\<close> give
  the opening of a \<open>ul\<close> with its first item and then \<open><li>b</li>\<close>, the type still
  \<open>ul\<close>.
\<close>

theorem list_item_in_open_list:
  assumes "list_marker line"
  shows "list_md line True list_type
           = (''<li>'' @ strip (drop 2 line) @ ''</li>'', True, list_type)
         \<and> foldl main_body ([], False, None) [''- a'', ''* b'']
           = ([''<ul>'' @ [newline] @ ''<li>a</li>'', ''<li>b</li>''], True, Some ''ul'')"
proof
  show "list_md line True list_type
          = (''<li>'' @ strip (drop 2 line) @ ''</li>'', True, list_type)"
    using assms by (simp add: list_md_def)
  show "foldl main_body ([], False, None) [''- a'', ''* b'']
          = ([''<ul>'' @ [newline] @ ''<li>a</li>'', ''<li>b</li>''], True, Some ''ul'')"
    by (simp add: converter_defs)
qed

theorem list_item_in_open_list_witness:
  "list_marker ''* b''
   \<and> list_md ''* b'' True (Some ''ul'') = (''<li>b</li>'', True, Some ''ul'')"
  using list_item_in_open_list [of "''* b''" "Some ''ul''"]
  by (simp add: strip_def strip_with_def isspace_def)

section \<open>The paragraph assembler on one line\<close>

lemma opening_not_closing: "opening_marker line \<Longrightarrow> \<not> closing_marker line"
  by (auto simp: prefix_def)

text \<open>
  C5: when a paragraph is open, a line that starts with \<open><ul\<close>, \<open><li\<close> or \<open><ol\<close> clears
  the paragraph flag and is appended to the output alone, with no \<open></p>\<close>; a line that
  starts with \<open><h\<close>, \<open></ul>\<close> or \<open></ol>\<close> has \<open></p>\<close> appended before it.
\<close>

theorem markers_in_open_paragraph:
  "(opening_marker line \<longrightarrow>
      convert_body (True, html_lines) line = (False, html_lines @ [line]))
   \<and> (closing_marker line \<longrightarrow>
      convert_body (True, html_lines) line = (False, html_lines @ [''</p>'', line]))"
  using opening_not_closing [of line] by (auto simp: convert_body_def)

theorem markers_in_open_paragraph_witness:
  "opening_marker ''<li>a</li>''
   \<and> convert_body (True, [''<p>'', ''x'']) ''<li>a</li>''
         = (False, [''<p>'', ''x'', ''<li>a</li>''])
   \<and> closing_marker ''<h1>T</h1>''
   \<and> convert_body (True, [''<p>'', ''x'']) ''<h1>T</h1>''
         = (False, [''<p>'', ''x'', ''</p>'', ''<h1>T</h1>''])"
  using markers_in_open_paragraph [of "''<li>a</li>''" "[''<p>'', ''x'']"]
        markers_in_open_paragraph [of "''<h1>T</h1>''" "[''<p>'', ''x'']"]
  by simp

section \<open>The heading classifier\<close>

lemma count_list_replicate_same: "count_list (replicate L c) c = L"
  by (induction L) simp_all

lemma count_hash_run:
  "CHR ''#'' \<notin> set text \<Longrightarrow>
   count_list (replicate L CHR ''#'' @ CHR '' '' # text) CHR ''#'' = L"
  by (simp add: count_list_replicate_same count_list_0_iff)

lemma dropWhile_hash_run:
  "dropWhile (\<lambda>c. c = CHR ''#'') (replicate L CHR ''#'' @ CHR '' '' # text) = CHR '' '' # text"
  by (induction L) simp_all

lemma dropWhile_no_hash_end:
  assumes "CHR ''#'' \<notin> set text"
  shows "dropWhile (\<lambda>c. c = CHR ''#'') (rev text @ '' '') = rev text @ '' ''"
proof (cases "rev text")
  case Nil
  then show ?thesis by simp
next
  case (Cons a as)
  then have "a \<in> set text" by (metis list.set_intros(1) set_rev)
  with assms have "a \<noteq> CHR ''#''" by auto
  with Cons show ?thesis by simp
qed

lemma strip_chars_hash_run:
  assumes "CHR ''#'' \<notin> set text"
  shows "strip_chars ''#'' (replicate L CHR ''#'' @ CHR '' '' # text) = CHR '' '' # text"
  using dropWhile_no_hash_end [OF assms]
  by (simp add: strip_chars_def strip_with_def dropWhile_hash_run)

lemma strip_leading_space: "strip (CHR '' '' # text) = strip text"
  by (simp add: strip_def strip_with_def isspace_def)

text \<open>
  When the text of the heading has no \<open>#\<close> in it, the level is the length of the leading
  run and the text is stripped of surrounding whitespace.
\<close>

lemma heading_without_inner_hash:
  assumes "CHR ''#'' \<notin> set text" and "0 < L"
  shows "heading (replicate L CHR ''#'' @ CHR '' '' # text)
           = ''<h'' @ str_nat L @ ''>'' @ strip text @ ''</h'' @ str_nat L @ ''>''"
proof -
  have "prefix ''#'' (replicate L CHR ''#'' @ CHR '' '' # text)"
    using assms(2) by (cases L) simp_all
  then show ?thesis
    unfolding heading_def Let_def
    by (simp only: count_hash_run [OF assms(1)] strip_chars_hash_run [OF assms(1)]
          strip_leading_space if_True)
qed

text \<open>
  C2: the heading line \<open># C# intro\<close> has a leading run of one \<open>#\<close>, so its heading is
  \<open><h1>C# intro</h1>\<close>. The level is taken from \<open>line.count('#')\<close>, which counts every
  \<open>#\<close> of the line, and the line comes out as a heading of level 2.
\<close>

theorem heading_counts_every_hash:
  "heading ''# C# intro'' = ''<h2>C# intro</h2>''"
  by (simp add: converter_defs)

section \<open>Spans of the inline directives\<close>

lemma no_pair_if_absent: "a \<notin> set s \<Longrightarrow> \<not> has_pair a b (s @ [a])"
proof (induction s)
  case Nil
  then show ?case by simp
next
  case (Cons x xs)
  then show ?case by (cases xs) auto
qed

lemma match_span_no_pair:
  "\<not> has_pair a b (x # take 1 s) \<Longrightarrow> match_span [a, b] cl (x # s) = None"
  by (cases s) auto

text \<open>Text in which no opening delimiter begins is copied.\<close>

lemma re_sub_skip:
  "\<not> has_pair a b (pre @ take 1 s) \<Longrightarrow>
   re_sub [a, b] cl repl (pre @ s) = pre @ re_sub [a, b] cl repl s"
proof (induction pre)
  case Nil
  then show ?case by simp
next
  case (Cons x xs)
  have first: "\<not> has_pair a b (x # take 1 (xs @ s))"
    using Cons.prems by (cases xs; cases s) auto
  have rest: "\<not> has_pair a b (xs @ take 1 s)"
    using Cons.prems by (cases "xs @ take 1 s") auto
  from first have "match_span [a, b] cl (x # xs @ s) = None"
    by (rule match_span_no_pair)
  with Cons.IH [OF rest] show ?case by simp
qed

lemma match_span_other_start:
  "a \<noteq> x \<Longrightarrow> match_span [a, b] cl (x # xs) = None"
  by (cases xs) simp_all

lemma re_sub_no_opener:
  "a \<notin> set s \<Longrightarrow> re_sub [a, b] cl repl s = s"
  by (induction s) (simp_all add: match_span_other_start)






lemma re_sub_no_pair: "\<not> has_pair a b s \<Longrightarrow> re_sub [a, b] cl repl s = s"
  using re_sub_skip [of a b s "[]" cl repl] by simp

section \<open>The digest\<close>














section \<open>The hash substitution\<close>





section \<open>The character elimination\<close>





section \<open>A single line of text\<close>

lemma rewritten_plain:
  assumes "no_markdown_markers L"
  shows "rewritten L = L"
proof -
  from assms have "remove_character L = L"
    by (simp add: no_markdown_markers_def remove_character_def re_sub_no_pair)
  moreover from assms have "process_inline_formatting L = L"
    by (simp add: no_markdown_markers_def process_inline_formatting_def re_sub_no_pair)
  moreover from assms have "heading L = L"
    by (simp add: no_markdown_markers_def heading_def)
  ultimately show ?thesis by simp
qed

text \<open>
  C8, as amended: the assembler applied to the single line \<open>L\<close> yields \<open><p>\<close>, \<open>L\<close>,
  \<open></p>\<close> exactly when \<open>L\<close> is not blank and does not start with \<open><h\<close>, \<open></ul>\<close>,
  \<open></ol>\<close>, \<open><ul\<close>, \<open><li\<close> or \<open><ol\<close>; and for every such line without Markdown markers
  the whole program, given the document of this one line, writes these three lines.
\<close>

theorem single_plain_line:
  "(convert_line [L] = [''<p>'', L, ''</p>''])
     = (\<not> closing_marker L \<and> \<not> opening_marker L \<and> strip L \<noteq> [])
   \<and> (no_markdown_markers L \<and> \<not> closing_marker L \<and> \<not> opening_marker L \<and> strip L \<noteq> []
        \<longrightarrow> markdown2html [L] = [''<p>'', L, ''</p>''])"
proof (intro conjI impI)
  show "(convert_line [L] = [''<p>'', L, ''</p>''])
          = (\<not> closing_marker L \<and> \<not> opening_marker L \<and> strip L \<noteq> [])"
    by (auto simp: convert_line_def convert_body_def)
next
  assume h: "no_markdown_markers L \<and> \<not> closing_marker L \<and> \<not> opening_marker L \<and> strip L \<noteq> []"
  then have "rewritten L = L" by (simp add: rewritten_plain)
  moreover from h have "\<not> list_marker L" by (simp add: no_markdown_markers_def)
  ultimately have "foldl main_body ([], False, None) [L] = ([L], False, None)"
    by (simp add: main_body_def list_md_def)
  moreover from h have "convert_line [L] = [''<p>'', L, ''</p>'']"
    by (simp add: convert_line_def convert_body_def)
  ultimately show "markdown2html [L] = [''<p>'', L, ''</p>'']"
    by (simp add: markdown2html_def)
qed

theorem single_plain_line_witness:
  "convert_line [''Hello world''] = [''<p>'', ''Hello world'', ''</p>'']
   \<and> no_markdown_markers ''Hello world''
   \<and> \<not> closing_marker ''Hello world'' \<and> \<not> opening_marker ''Hello world''
   \<and> strip ''Hello world'' \<noteq> []
   \<and> markdown2html [''Hello world''] = [''<p>'', ''Hello world'', ''</p>'']"
  using single_plain_line [of "''Hello world''"]
  by (simp add: no_markdown_markers_def strip_def strip_with_def isspace_def)

text \<open>
  C8 as stated fails: the line \<open><hello>\<close> has no Markdown marker and is the only line, and
  it is written as it is, with no \<open><p>\<close> and no \<open></p>\<close>, by the assembler and by the whole
  program. The same holds for a line that starts with \<open><li\<close> or with \<open></ul>\<close>, and for an
  empty line or a line of two spaces nothing is written at all.
\<close>

theorem tag_like_line_not_wrapped:
  "no_markdown_markers ''<hello>''
   \<and> convert_line [''<hello>''] = [''<hello>'']
   \<and> markdown2html [''<hello>''] = [''<hello>'']
   \<and> no_markdown_markers ''<li>x'' \<and> convert_line [''<li>x''] = [''<li>x'']
   \<and> no_markdown_markers ''</ul>x'' \<and> convert_line [''</ul>x''] = [''</ul>x'']
   \<and> no_markdown_markers [] \<and> convert_line [[]] = []
   \<and> no_markdown_markers ''  '' \<and> convert_line [''  ''] = []"
  by (simp add: no_markdown_markers_def converter_defs)

section \<open>Balance of the paragraph tags\<close>

lemma balanced_whole:
  "paragraphs_balanced (p, out) \<Longrightarrow> count_list out ''</p>'' \<le> count_list out ''<p>''"
  by (simp add: paragraphs_balanced_def)

lemma balanced_flag_off: "paragraphs_balanced (p, out) \<Longrightarrow> paragraphs_balanced (False, out)"
  by (simp add: paragraphs_balanced_def)

lemma balanced_append_other:
  assumes "paragraphs_balanced (p, out)" and "x \<noteq> ''</p>''"
  shows "paragraphs_balanced (p, out @ [x])"
  using assms balanced_whole [OF assms(1)]
  unfolding paragraphs_balanced_def prod.case prefix_snoc
  by (cases "x = ''<p>''") auto

lemma balanced_close:
  assumes "paragraphs_balanced (True, out)"
  shows "paragraphs_balanced (False, out @ [''</p>''])"
  using assms unfolding paragraphs_balanced_def prod.case prefix_snoc
  by auto

lemma balanced_open:
  assumes "paragraphs_balanced (p, out)"
  shows "paragraphs_balanced (True, out @ [''<p>''])"
  using assms balanced_whole [OF assms]
  unfolding paragraphs_balanced_def prod.case prefix_snoc
  by auto

lemma convert_body_balanced:
  assumes ne: "line \<noteq> ''</p>''" and bal: "paragraphs_balanced st"
  shows "paragraphs_balanced (convert_body st line)"
proof (cases st)
  case (Pair p out)
  note b = bal [unfolded Pair]
  have off: "paragraphs_balanced (False, out)" using b by (rule balanced_flag_off)
  consider (is_closing) "closing_marker line"
    | (is_opening) "\<not> closing_marker line" "opening_marker line"
    | (is_blank) "\<not> closing_marker line" "\<not> opening_marker line" "strip line = []"
    | (is_plain) "\<not> closing_marker line" "\<not> opening_marker line" "strip line \<noteq> []"
    by blast
  then show ?thesis
  proof cases
    case is_closing
    then have eq: "convert_body (p, out) line
        = (if p then (False, (out @ [''</p>'']) @ [line]) else (p, out @ [line]))"
      by (simp add: convert_body_def)
    show ?thesis
    proof (cases p)
      case True
      with b have "paragraphs_balanced (False, out @ [''</p>''])" by (simp add: balanced_close)
      then have "paragraphs_balanced (False, (out @ [''</p>'']) @ [line])"
        using ne by (rule balanced_append_other)
      with True show ?thesis unfolding Pair eq by simp
    next
      case False
      with b ne have "paragraphs_balanced (p, out @ [line])" by (simp add: balanced_append_other)
      with False show ?thesis unfolding Pair eq by simp
    qed
  next
    case is_opening
    then have eq: "convert_body (p, out) line = (False, out @ [line])"
      by (simp add: convert_body_def)
    show ?thesis unfolding Pair eq using off ne by (rule balanced_append_other)
  next
    case is_blank
    then have eq: "convert_body (p, out) line
        = (if p then (False, out @ [''</p>'']) else (p, out))"
      by (simp add: convert_body_def)
    show ?thesis
    proof (cases p)
      case True
      with b show ?thesis unfolding Pair eq by (simp add: balanced_close)
    next
      case False
      with b show ?thesis unfolding Pair eq by simp
    qed
  next
    case is_plain
    then have eq: "convert_body (p, out) line
        = (if \<not> p then (True, (out @ [''<p>'']) @ [line])
           else (p, (out @ [''<br />'']) @ [line]))"
      by (simp add: convert_body_def)
    show ?thesis
    proof (cases p)
      case True
      from b have "paragraphs_balanced (p, out @ [''<br />''])"
        by (rule balanced_append_other) simp
      then have "paragraphs_balanced (p, (out @ [''<br />'']) @ [line])"
        using ne by (rule balanced_append_other)
      with True show ?thesis unfolding Pair eq by simp
    next
      case False
      from b have "paragraphs_balanced (True, out @ [''<p>''])" by (rule balanced_open)
      then have "paragraphs_balanced (True, (out @ [''<p>'']) @ [line])"
        using ne by (rule balanced_append_other)
      with False show ?thesis unfolding Pair eq by simp
    qed
  qed
qed

lemma foldl_convert_body_balanced:
  "''</p>'' \<notin> set lines \<Longrightarrow> paragraphs_balanced st \<Longrightarrow>
   paragraphs_balanced (foldl convert_body st lines)"
proof (induction lines arbitrary: st)
  case Nil
  then show ?case by simp
next
  case (Cons l ls)
  from Cons.prems have "l \<noteq> ''</p>''" and rest: "''</p>'' \<notin> set ls" by auto
  then have "paragraphs_balanced (convert_body st l)"
    using Cons.prems(2) by (simp add: convert_body_balanced)
  with rest have "paragraphs_balanced (foldl convert_body (convert_body st l) ls)"
    by (rule Cons.IH)
  then show ?case by simp
qed

lemma convert_line_balanced:
  assumes "''</p>'' \<notin> set lines" and "prefix pre (convert_line lines)"
  shows "count_list pre ''</p>'' \<le> count_list pre ''<p>''"
proof -
  obtain p out where st: "foldl convert_body (False, []) lines = (p, out)"
    by (cases "foldl convert_body (False, []) lines")
  have "paragraphs_balanced (False, [])"
    by (simp add: paragraphs_balanced_def)
  with assms(1) have "paragraphs_balanced (foldl convert_body (False, []) lines)"
    by (rule foldl_convert_body_balanced)
  then have b: "paragraphs_balanced (p, out)" by (simp only: st)
  show ?thesis
  proof (cases p)
    case True
    with b have "paragraphs_balanced (False, out @ [''</p>''])" by (simp add: balanced_close)
    moreover from True st assms(2) have "prefix pre (out @ [''</p>''])"
      by (simp add: convert_line_def)
    ultimately show ?thesis unfolding paragraphs_balanced_def prod.case by blast
  next
    case False
    with st assms(2) have "prefix pre out" by (simp add: convert_line_def)
    with b show ?thesis unfolding paragraphs_balanced_def prod.case by blast
  qed
qed

text \<open>
  C10, as amended: when no input line of the assembler is the text \<open></p>\<close> itself, no
  prefix of the output has more lines \<open></p>\<close> than lines \<open><p>\<close>. The converse fails: a
  line of plain text followed by a line that starts with \<open><ul\<close>, \<open><li\<close> or \<open><ol\<close>
  gives \<open><p>\<close>, the text and the marker line, and the paragraph is never closed.
\<close>

theorem paragraph_tags_balanced:
  "(''</p>'' \<notin> set lines \<and> prefix pre (convert_line lines)
      \<longrightarrow> count_list pre ''</p>'' \<le> count_list pre ''<p>'')
   \<and> (\<not> closing_marker t \<and> \<not> opening_marker t \<and> strip t \<noteq> [] \<and> opening_marker l
      \<longrightarrow> convert_line [t, l] = [''<p>'', t, l])"
proof (intro conjI impI)
  assume "''</p>'' \<notin> set lines \<and> prefix pre (convert_line lines)"
  then show "count_list pre ''</p>'' \<le> count_list pre ''<p>''"
    using convert_line_balanced by blast
next
  assume "\<not> closing_marker t \<and> \<not> opening_marker t \<and> strip t \<noteq> [] \<and> opening_marker l"
  then show "convert_line [t, l] = [''<p>'', t, l]"
    using opening_not_closing [of l] by (simp add: convert_line_def convert_body_def)
qed

theorem paragraph_tags_balanced_witness:
  "''</p>'' \<notin> set [''a'', [], ''b'', ''<h1>T</h1>'']
   \<and> prefix [''<p>'', ''a'', ''</p>'', ''<p>'', ''b'', ''</p>'']
        (convert_line [''a'', [], ''b'', ''<h1>T</h1>''])
   \<and> count_list [''<p>'', ''a'', ''</p>'', ''<p>'', ''b'', ''</p>''] ''</p>''
       \<le> count_list [''<p>'', ''a'', ''</p>'', ''<p>'', ''b'', ''</p>''] ''<p>''
   \<and> \<not> closing_marker ''text'' \<and> \<not> opening_marker ''text'' \<and> strip ''text'' \<noteq> []
   \<and> opening_marker ''<li>a</li>''
   \<and> convert_line [''text'', ''<li>a</li>''] = [''<p>'', ''text'', ''<li>a</li>'']"
  using paragraph_tags_balanced [of "[''a'', [], ''b'', ''<h1>T</h1>'']"
          "[''<p>'', ''a'', ''</p>'', ''<p>'', ''b'', ''</p>'']" "''text''" "''<li>a</li>''"]
  by (simp add: converter_defs)

text \<open>
  C10 as stated fails: the input line \<open></p>\<close> is plain text for the assembler, the
  output is \<open><p>\<close>, \<open></p>\<close>, \<open></p>\<close>, and it has two lines \<open></p>\<close> for one line
  \<open><p>\<close>.
\<close>

theorem literal_close_line_unbalanced:
  "convert_line [''</p>''] = [''<p>'', ''</p>'', ''</p>'']
   \<and> count_list (convert_line [''</p>'']) ''<p>'' < count_list (convert_line [''</p>'']) ''</p>''"
  by (simp add: converter_defs)

section \<open>List blocks in the whole pipeline\<close>

lemma main_body_step:
  "main_body (P, b, t) line =
     (P @ [fst (list_md (rewritten line) b t)], snd (list_md (rewritten line) b t))"
  by (simp add: main_body_def Let_def split: prod.splits)

lemma main_body_open:
  "list_marker (rewritten line) \<Longrightarrow>
   main_body (P, False, t) line = (P @ [open_line line], True, Some (list_tag line))"
  by (simp add: main_body_step list_md_def Let_def)

lemma main_body_item:
  "list_marker (rewritten line) \<Longrightarrow>
   main_body (P, True, t) line = (P @ [item_line line], True, t)"
  by (simp add: main_body_step list_md_def)

lemma main_body_close:
  "\<not> list_marker (rewritten line) \<Longrightarrow>
   main_body (P, True, Some tag) line = (P @ [close_line tag line], False, None)"
  by (simp add: main_body_step list_md_def str_list_type_def)

lemma main_body_pass:
  "\<not> list_marker (rewritten line) \<Longrightarrow>
   main_body (P, False, t) line = (P @ [rewritten line], False, t)"
  by (simp add: main_body_step list_md_def)

lemma main_loop_items:
  "\<forall>i\<in>set items. list_marker (rewritten i) \<Longrightarrow>
   foldl main_body (P, True, t) items = (P @ map item_line items, True, t)"
  by (induction items arbitrary: P) (simp_all add: main_body_item)

lemma main_body_acc:
  "main_body ([], b, t) line = (Q, b', t') \<Longrightarrow> main_body (P, b, t) line = (P @ Q, b', t')"
  by (auto simp: main_body_step)

lemma main_loop_acc:
  "foldl main_body ([], b, t) ls = (Q, b', t') \<Longrightarrow>
   foldl main_body (P, b, t) ls = (P @ Q, b', t')"
proof (induction ls arbitrary: Q b' t' rule: rev_induct)
  case Nil
  then show ?case by simp
next
  case (snoc l ls)
  obtain Q0 b0 t0 where st: "foldl main_body ([], b, t) ls = (Q0, b0, t0)"
    by (cases "foldl main_body ([], b, t) ls") auto
  then have "foldl main_body (P, b, t) ls = (P @ Q0, b0, t0)" by (rule snoc.IH)
  moreover from snoc.prems st have "main_body (Q0, b0, t0) l = (Q, b', t')" by simp
  ultimately show ?case by (auto simp: main_body_step)
qed

lemma convert_body_acc:
  "convert_body (p, []) line = (p', Q) \<Longrightarrow> convert_body (p, out) line = (p', out @ Q)"
  by (auto simp: convert_body_def split: if_splits)

lemma convert_loop_acc:
  "foldl convert_body (p, []) ls = (p', Q) \<Longrightarrow>
   foldl convert_body (p, out) ls = (p', out @ Q)"
proof (induction ls arbitrary: p out p' Q)
  case Nil
  then show ?case by simp
next
  case (Cons l ls)
  obtain p1 Q1 where s1: "convert_body (p, []) l = (p1, Q1)"
    by (cases "convert_body (p, []) l")
  then have s2: "convert_body (p, out) l = (p1, out @ Q1)" by (rule convert_body_acc)
  obtain p2 Q2 where s3: "foldl convert_body (p1, []) ls = (p2, Q2)"
    by (cases "foldl convert_body (p1, []) ls")
  from Cons.IH [OF s3, of Q1] Cons.prems s1 have "p' = p2" "Q = Q1 @ Q2" by simp_all
  with Cons.IH [OF s3, of "out @ Q1"] s2 show ?case by simp
qed

lemma convert_loop_openers:
  "\<forall>l\<in>set ls. opening_marker l \<Longrightarrow> ls \<noteq> [] \<Longrightarrow>
   foldl convert_body (p, out) ls = (False, out @ ls)"
proof (induction ls arbitrary: p out)
  case Nil
  then show ?case by simp
next
  case (Cons l ls)
  then have "opening_marker l" by simp
  then have step: "convert_body (p, out) l = (False, out @ [l])"
    using opening_not_closing [of l] by (simp add: convert_body_def)
  show ?case
  proof (cases "ls = []")
    case True
    with step show ?thesis by simp
  next
    case False
    with Cons have "foldl convert_body (False, out @ [l]) ls = (False, (out @ [l]) @ ls)"
      by simp
    with step show ?thesis by simp
  qed
qed

lemma convert_body_closer:
  "closing_marker l \<Longrightarrow> convert_body (False, out) l = (False, out @ [l])"
  by (simp add: convert_body_def)

lemma convert_line_after_closed:
  assumes "foldl convert_body (False, []) A = (False, X)"
  shows "convert_line (A @ B) = X @ convert_line B"
proof -
  obtain p Z where z: "foldl convert_body (False, []) B = (p, Z)"
    by (cases "foldl convert_body (False, []) B")
  then have "foldl convert_body (False, X) B = (p, X @ Z)" by (rule convert_loop_acc)
  with assms z show ?thesis by (simp add: convert_line_def)
qed

lemma open_line_marker: "opening_marker (open_line line)"
  by simp

lemma item_line_marker: "opening_marker (item_line line)"
  by simp

lemma close_line_marker:
  "tag = ''ul'' \<or> tag = ''ol'' \<Longrightarrow> closing_marker (close_line tag line)"
  by auto

lemma main_loop_block:
  assumes "list_marker (rewritten opener)" and "\<forall>i\<in>set items. list_marker (rewritten i)"
  shows "foldl main_body (P, False, t) (opener # items)
           = (P @ open_line opener # map item_line items, True, Some (list_tag opener))"
  using assms by (simp add: main_body_open main_loop_items)

lemma convert_loop_block:
  assumes "foldl convert_body (False, []) P = (p, X)"
  shows "foldl convert_body (False, []) (P @ open_line opener # map item_line items)
           = (False, X @ open_line opener # map item_line items)"
proof -
  have "\<forall>l\<in>set (open_line opener # map item_line items). opening_marker l"
    by auto
  then have "foldl convert_body (p, X) (open_line opener # map item_line items)
               = (False, X @ open_line opener # map item_line items)"
    by (rule convert_loop_openers) simp
  with assms show ?thesis by (simp only: foldl_append)
qed

lemma tracker_invariant:
  "foldl main_body ([], False, None) ls = (Q, b, t) \<Longrightarrow>
   (if b then (t = Some ''ul'' \<or> t = Some ''ol'') \<and> Q \<noteq> [] \<and> opening_marker (last Q)
    else t = None)"
proof (induction ls arbitrary: Q b t rule: rev_induct)
  case Nil
  then show ?case by simp
next
  case (snoc l ls)
  obtain Q0 b0 t0 where st: "foldl main_body ([], False, None) ls = (Q0, b0, t0)"
    by (cases "foldl main_body ([], False, None) ls") auto
  note IH = snoc.IH [OF st]
  from snoc.prems st have step: "main_body (Q0, b0, t0) l = (Q, b, t)" by simp
  show ?case
  proof (cases "list_marker (rewritten l)")
    case True
    show ?thesis
    proof (cases b0)
      case True
      with \<open>list_marker (rewritten l)\<close> step IH show ?thesis
        by (auto simp: main_body_item)
    next
      case False
      with \<open>list_marker (rewritten l)\<close> step
      have "Q = Q0 @ [open_line l]" "b" "t = Some (list_tag l)"
        by (simp_all add: main_body_open)
      moreover have "list_tag l = ''ul'' \<or> list_tag l = ''ol''" by simp
      moreover have "opening_marker (open_line l)" by (rule open_line_marker)
      ultimately show ?thesis by (simp del: append.simps list.simps prefix_code Cons_prefix_Cons)
    qed
  next
    case False
    show ?thesis
    proof (cases b0)
      case True
      with IH obtain tag where "t0 = Some tag" by auto
      with True \<open>\<not> list_marker (rewritten l)\<close> step show ?thesis
        by (auto simp: main_body_close)
    next
      case b0: False
      with \<open>\<not> list_marker (rewritten l)\<close> step IH show ?thesis
        by (auto simp: main_body_pass)
    qed
  qed
qed

lemma convert_loop_ends_with_opener:
  assumes "P \<noteq> []" and "opening_marker (last P)"
  shows "\<exists>X. foldl convert_body (False, []) P = (False, X @ [last P])"
proof -
  obtain p X where st: "foldl convert_body (False, []) (butlast P) = (p, X)"
    by (cases "foldl convert_body (False, []) (butlast P)")
  have "convert_body (p, X) (last P) = (False, X @ [last P])"
    using assms(2) opening_not_closing [of "last P"] by (simp add: convert_body_def)
  with st have "foldl convert_body (False, []) (butlast P @ [last P]) = (False, X @ [last P])"
    by (simp only: foldl_append foldl_Cons foldl_Nil)
  with assms(1) show ?thesis by simp
qed

text \<open>
  C3: take any input in which the list tracker is closed after the lines \<open>pre\<close>, the next
  line \<open>opener\<close> is a list line and so are the lines \<open>items\<close> after it. The list that
  \<open>opener\<close> opens is closed once. If the input ends there, the output ends with the
  opening line, one item for each further line and then the line \<open></tag>\<close> of the opened
  type. If a line \<open>n\<close> that is no list line comes next, its output line is the closing tag
  followed by the content of \<open>n\<close>, and the lines \<open>rest\<close> after it are converted as a
  document of their own. None of the lines of the block before the closing line starts
  with a closing tag.
\<close>

theorem list_block_closed_once:
  assumes "foldl main_body ([], False, None) pre = (P, False, t)"
      and "list_marker (rewritten opener)"
      and "\<forall>i\<in>set items. list_marker (rewritten i)"
  shows "markdown2html (pre @ opener # items)
           = snd (foldl convert_body (False, []) P)
               @ open_line opener # map item_line items
               @ [''</'' @ list_tag opener @ ''>'']
       \<and> (\<not> list_marker (rewritten n) \<longrightarrow>
            markdown2html (pre @ opener # items @ n # rest)
              = snd (foldl convert_body (False, []) P)
                  @ open_line opener # map item_line items
                  @ [close_line (list_tag opener) n]
                  @ markdown2html rest)
       \<and> (\<forall>l\<in>set (open_line opener # map item_line items). \<not> closing_marker l)
       \<and> closing_marker (close_line (list_tag opener) n)"
proof -
  obtain p X where cv: "foldl convert_body (False, []) P = (p, X)"
    by (cases "foldl convert_body (False, []) P")
  let ?L = "open_line opener # map item_line items"
  let ?tag = "list_tag opener"
  have blk: "foldl main_body ([], False, None) (pre @ opener # items) = (P @ ?L, True, Some ?tag)"
    using assms main_loop_block [OF assms(2,3)] by (simp only: foldl_append)
  have cvb: "foldl convert_body (False, []) (P @ ?L) = (False, X @ ?L)"
    using cv by (rule convert_loop_block)
  have "markdown2html (pre @ opener # items) = (X @ ?L) @ [''</'' @ ?tag @ ''>'']"
    unfolding markdown2html_def blk prod.case convert_line_def cvb
    by (simp add: str_list_type_def)
  then have eof: "markdown2html (pre @ opener # items)
           = snd (foldl convert_body (False, []) P)
               @ open_line opener # map item_line items
               @ [''</'' @ list_tag opener @ ''>'']"
    using cv by simp
  have mid: "markdown2html (pre @ opener # items @ n # rest)
              = snd (foldl convert_body (False, []) P)
                  @ open_line opener # map item_line items
                  @ [close_line (list_tag opener) n]
                  @ markdown2html rest" if n: "\<not> list_marker (rewritten n)"
  proof -
    obtain R b' t' where r: "foldl main_body ([], False, None) rest = (R, b', t')"
      by (cases "foldl main_body ([], False, None) rest") auto
    have "foldl main_body ([], False, None) ((pre @ opener # items) @ [n])
            = ((P @ ?L) @ [close_line ?tag n], False, None)"
      using blk main_body_close [OF n] by (simp only: foldl_append foldl_Cons foldl_Nil)
    moreover have "foldl main_body ((P @ ?L) @ [close_line ?tag n], False, None) rest
            = (((P @ ?L) @ [close_line ?tag n]) @ R, b', t')"
      using r by (rule main_loop_acc)
    ultimately have all: "foldl main_body ([], False, None) (((pre @ opener # items) @ [n]) @ rest)
            = (((P @ ?L) @ [close_line ?tag n]) @ R, b', t')"
      by (simp only: foldl_append)
    have "closing_marker (close_line ?tag n)" by auto
    then have "convert_body (False, X @ ?L) (close_line ?tag n)
                 = (False, (X @ ?L) @ [close_line ?tag n])"
      by (rule convert_body_closer)
    with cvb have "foldl convert_body (False, []) ((P @ ?L) @ [close_line ?tag n])
                 = (False, (X @ ?L) @ [close_line ?tag n])"
      by (simp only: foldl_append foldl_Cons foldl_Nil)
    then have "convert_line (((P @ ?L) @ [close_line ?tag n]) @ R)
                 = ((X @ ?L) @ [close_line ?tag n]) @ convert_line R"
      by (rule convert_line_after_closed)
    then have "markdown2html (((pre @ opener # items) @ [n]) @ rest)
                 = ((X @ ?L) @ [close_line ?tag n]) @ markdown2html rest"
      unfolding markdown2html_def all r prod.case by simp
    then show ?thesis using cv by simp
  qed
  have no_close: "\<forall>l\<in>set (open_line opener # map item_line items). \<not> closing_marker l"
    by auto
  have is_close: "closing_marker (close_line (list_tag opener) n)"
    by auto
  from eof mid no_close is_close show ?thesis by blast
qed

theorem list_block_closed_once_witness:
  "foldl main_body ([], False, None) [''intro''] = ([''intro''], False, None)
   \<and> list_marker (rewritten ''- a'')
   \<and> list_marker (rewritten ''* b'')
   \<and> markdown2html [''intro'', ''- a'', ''* b'']
       = [''<p>'', ''intro'', ''<ul>'' @ [newline] @ ''<li>a</li>'', ''<li>b</li>'', ''</ul>'']
   \<and> \<not> list_marker (rewritten ''after'')
   \<and> markdown2html [''intro'', ''- a'', ''* b'', ''after'', ''- c'']
       = [''<p>'', ''intro'', ''<ul>'' @ [newline] @ ''<li>a</li>'', ''<li>b</li>'',
          ''</ul>after'', ''<ul>'' @ [newline] @ ''<li>c</li>'', ''</ul>'']"
  using list_block_closed_once [where pre = "[''intro'']" and P = "[''intro'']" and t = None
          and opener = "''- a''" and items = "[''* b'']" and n = "''after''"
          and rest = "[''- c'']"]
  by (simp add: converter_defs)

text \<open>
  C9: when a list is open after the lines \<open>pre\<close> and the next line \<open>l\<close> is no list line,
  the tracker gives the line \<open></ul>\<close> or \<open></ol>\<close> followed by the content of \<open>l\<close>; the
  assembler takes it for a closing marker and writes it unchanged, between the output
  for the lines before it, which ends with a list item and has no paragraph open, and
  the output for the lines after it, converted as a document of their own. No \<open><p>\<close>,
  \<open><br />\<close> or \<open></p>\<close> is written for it.
\<close>

theorem closing_line_outside_paragraph:
  assumes "foldl main_body ([], False, None) pre = (P, True, t)"
      and "\<not> list_marker (rewritten l)"
  shows "(t = Some ''ul'' \<or> t = Some ''ol'')
       \<and> closing_marker (close_line (str_list_type t) l)
       \<and> markdown2html (pre @ l # rest)
           = convert_line P @ [close_line (str_list_type t) l] @ markdown2html rest
       \<and> convert_line P \<noteq> [] \<and> last (convert_line P) = last P
       \<and> opening_marker (last P)"
proof -
  from tracker_invariant [OF assms(1)]
  have t: "t = Some ''ul'' \<or> t = Some ''ol''" and P: "P \<noteq> []" "opening_marker (last P)"
    by simp_all
  then obtain tag where tag: "t = Some tag" "tag = ''ul'' \<or> tag = ''ol''" by auto
  then have st: "str_list_type t = tag" by (simp add: str_list_type_def)
  have cm: "closing_marker (close_line tag l)"
    using tag(2) by (rule close_line_marker)
  from convert_loop_ends_with_opener [OF P]
  obtain X where cv: "foldl convert_body (False, []) P = (False, X @ [last P])" by blast
  then have cl: "convert_line P = X @ [last P]" by (simp add: convert_line_def)
  obtain R b' t' where r: "foldl main_body ([], False, None) rest = (R, b', t')"
    by (cases "foldl main_body ([], False, None) rest") auto
  have "foldl main_body ([], False, None) (pre @ [l]) = (P @ [close_line tag l], False, None)"
    using assms(1) tag(1) main_body_close [OF assms(2)]
    by (simp only: foldl_append foldl_Cons foldl_Nil)
  moreover have "foldl main_body (P @ [close_line tag l], False, None) rest
                   = ((P @ [close_line tag l]) @ R, b', t')"
    using r by (rule main_loop_acc)
  ultimately have all: "foldl main_body ([], False, None) ((pre @ [l]) @ rest)
                   = ((P @ [close_line tag l]) @ R, b', t')"
    by (simp only: foldl_append)
  have "convert_body (False, X @ [last P]) (close_line tag l)
          = (False, (X @ [last P]) @ [close_line tag l])"
    using cm by (rule convert_body_closer)
  with cv have "foldl convert_body (False, []) (P @ [close_line tag l])
          = (False, (X @ [last P]) @ [close_line tag l])"
    by (simp only: foldl_append foldl_Cons foldl_Nil)
  then have "convert_line ((P @ [close_line tag l]) @ R)
          = ((X @ [last P]) @ [close_line tag l]) @ convert_line R"
    by (rule convert_line_after_closed)
  then have "markdown2html ((pre @ [l]) @ rest)
          = (convert_line P @ [close_line tag l]) @ markdown2html rest"
    unfolding markdown2html_def all r prod.case cl by simp
  then have "markdown2html (pre @ l # rest)
          = convert_line P @ [close_line tag l] @ markdown2html rest"
    by simp
  with t cm P cl show ?thesis unfolding st by simp
qed

theorem closing_line_outside_paragraph_witness:
  "foldl main_body ([], False, None) [''- a'']
     = ([''<ul>'' @ [newline] @ ''<li>a</li>''], True, Some ''ul'')
   \<and> \<not> list_marker (rewritten ''tail'')
   \<and> markdown2html [''- a'', ''tail'', ''more'']
       = [''<ul>'' @ [newline] @ ''<li>a</li>'', ''</ul>tail'', ''<p>'', ''more'', ''</p>'']"
  using closing_line_outside_paragraph [where pre = "[''- a'']"
          and P = "[''<ul>'' @ [newline] @ ''<li>a</li>'']" and t = "Some ''ul''"
          and l = "''tail''" and rest = "[''more'']"]
  by (simp add: converter_defs)

end
